theory Spec2Isabelle
  imports Main
begin

section \<open>JavaScript strings\<close>

text \<open>
  A JavaScript string is a sequence of UTF-16 code units. A code unit is modelled as a
  natural number (every code unit is below \<open>0x10000\<close>); no function below does arithmetic
  on code units, they are only compared. \<open>js\<close> turns a literal of the source (all of them
  are ASCII) into its code units.
\<close>

type_synonym code_unit = nat
type_synonym jsstring = "code_unit list"

definition js :: "string \<Rightarrow> jsstring" where
  "js s = map of_char s"

text \<open>
  \<open>String.prototype.substring(a, b)\<close>: both indices are clamped to the length and swapped
  when the first is larger. Every index the source passes is a non-negative integer.
  \<open>substring_from\<close> is the call with one argument.
\<close>

definition substring :: "jsstring \<Rightarrow> nat \<Rightarrow> nat \<Rightarrow> jsstring" where
  "substring s a b =
     (let a' = min a (length s); b' = min b (length s);
          from = min a' b'; to = max a' b'
      in take (to - from) (drop from s))"

definition substring_from :: "jsstring \<Rightarrow> nat \<Rightarrow> jsstring" where
  "substring_from s a = drop (min a (length s)) s"

text \<open>
  \<open>String.prototype.lastIndexOf(c, pos)\<close> for a search string of one code unit: \<open>pos\<close> is
  clamped between 0 and \<open>length - 1\<close>, the indices from there down to 0 are tried in
  descending order, and the result is \<open>-1\<close> when none holds \<open>c\<close>. A negative \<open>pos\<close>
  therefore searches index 0.
\<close>

definition lastIndexOf :: "jsstring \<Rightarrow> code_unit \<Rightarrow> int \<Rightarrow> int" where
  "lastIndexOf s c pos =
     (let start = min (max pos 0) (int (length s) - 1)
      in int (length (dropWhile (\<lambda>x. x \<noteq> c) (rev (take (nat (start + 1)) s)))) - 1)"

text \<open>
  \<open>String.prototype.indexOf(c, pos)\<close> for a search string of one code unit: the first
  index at or after \<open>pos\<close> (clamped to the length) that holds \<open>c\<close>, or \<open>-1\<close>.
\<close>

definition indexOf :: "jsstring \<Rightarrow> code_unit \<Rightarrow> nat \<Rightarrow> int" where
  "indexOf s c pos =
     (let r = dropWhile (\<lambda>x. x \<noteq> c) (drop (min pos (length s)) s)
      in if r = [] then - 1 else int (length s) - int (length r))"

definition startsWith :: "jsstring \<Rightarrow> jsstring \<Rightarrow> bool" where
  "startsWith s p = (take (length p) s = p)"

section \<open>Regular expressions\<close>

text \<open>
  The regular expressions of the source are sequences of atoms: a character class, a
  quantified character class, a capture group boundary, or a line anchor (every pattern
  of the source that uses \<open>^\<close> or \<open>$\<close> carries the \<open>m\<close> flag). None of them uses
  alternation, a quantified group or a back reference.
\<close>

definition is_line_terminator :: "code_unit \<Rightarrow> bool" where
  "is_line_terminator c = (c = 0x0A \<or> c = 0x0D \<or> c = 0x2028 \<or> c = 0x2029)"

definition is_white_space :: "code_unit \<Rightarrow> bool" where
  "is_white_space c =
     (c = 0x09 \<or> c = 0x0B \<or> c = 0x0C \<or> c = 0x20 \<or> c = 0xA0 \<or> c = 0x1680
      \<or> (0x2000 \<le> c \<and> c \<le> 0x200A) \<or> c = 0x202F \<or> c = 0x205F \<or> c = 0x3000
      \<or> c = 0xFEFF \<or> is_line_terminator c)"

datatype cclass =
    Lit code_unit          \<comment> \<open>a literal character, escaped or not\<close>
  | Dot                    \<comment> \<open>\<open>.\<close>: anything but a line terminator\<close>
  | AnyChar                \<comment> \<open>\<open>[\s\S]\<close>\<close>
  | Digit                  \<comment> \<open>\<open>\d\<close>\<close>
  | Space                  \<comment> \<open>\<open>\s\<close>\<close>
  | OneOf "code_unit list" \<comment> \<open>\<open>[...]\<close> of literal characters\<close>

fun in_class :: "cclass \<Rightarrow> code_unit \<Rightarrow> bool" where
  "in_class (Lit c) x = (x = c)"
| "in_class Dot x = (\<not> is_line_terminator x)"
| "in_class AnyChar x = True"
| "in_class Digit x = (0x30 \<le> x \<and> x \<le> 0x39)"
| "in_class Space x = is_white_space x"
| "in_class (OneOf cs) x = (x \<in> set cs)"

datatype atom =
    Ch cclass        \<comment> \<open>one character of the class\<close>
  | LazyStar cclass  \<comment> \<open>\<open>c*?\<close>\<close>
  | Star cclass      \<comment> \<open>\<open>c*\<close>\<close>
  | Plus cclass      \<comment> \<open>\<open>c+\<close>\<close>
  | GroupOpen        \<comment> \<open>\<open>(\<close>\<close>
  | GroupClose       \<comment> \<open>\<open>)\<close>\<close>
  | Bol              \<comment> \<open>\<open>^\<close> under the \<open>m\<close> flag\<close>
  | Eol              \<comment> \<open>\<open>$\<close> under the \<open>m\<close> flag\<close>

type_synonym regex = "atom list"

definition lits :: "string \<Rightarrow> regex" where
  "lits s = map (\<lambda>c. Ch (Lit (of_char c))) s"

text \<open>
  The backtracking matcher. \<open>rmatch r prev s pos marks\<close> matches \<open>r\<close> against the input
  \<open>s\<close> that remains; \<open>prev\<close> is the code unit before it (\<open>None\<close> at the start of the
  string), \<open>pos\<close> the number of code units consumed since the start of the match, and
  \<open>marks\<close> the positions of the group boundaries passed so far. A lazy quantifier tries
  the rest of the pattern first and one more character after that; a greedy one tries
  one more character first. The result is the length of the match and its marks.
\<close>

fun rmatch :: "regex \<Rightarrow> code_unit option \<Rightarrow> jsstring \<Rightarrow> nat \<Rightarrow> nat list \<Rightarrow> (nat \<times> nat list) option" where
  "rmatch [] prev s pos marks = Some (pos, marks)"
| "rmatch (Ch c # r) prev [] pos marks = None"
| "rmatch (Ch c # r) prev (x # xs) pos marks =
     (if in_class c x then rmatch r (Some x) xs (Suc pos) marks else None)"
| "rmatch (LazyStar c # r) prev [] pos marks = rmatch r prev [] pos marks"
| "rmatch (LazyStar c # r) prev (x # xs) pos marks =
     (case rmatch r prev (x # xs) pos marks of
        Some res \<Rightarrow> Some res
      | None \<Rightarrow> if in_class c x then rmatch (LazyStar c # r) (Some x) xs (Suc pos) marks else None)"
| "rmatch (Star c # r) prev [] pos marks = rmatch r prev [] pos marks"
| "rmatch (Star c # r) prev (x # xs) pos marks =
     (if in_class c x
      then (case rmatch (Star c # r) (Some x) xs (Suc pos) marks of
              Some res \<Rightarrow> Some res
            | None \<Rightarrow> rmatch r prev (x # xs) pos marks)
      else rmatch r prev (x # xs) pos marks)"
| "rmatch (Plus c # r) prev [] pos marks = None"
| "rmatch (Plus c # r) prev (x # xs) pos marks =
     (if in_class c x then rmatch (Star c # r) (Some x) xs (Suc pos) marks else None)"
| "rmatch (GroupOpen # r) prev s pos marks = rmatch r prev s pos (marks @ [pos])"
| "rmatch (GroupClose # r) prev s pos marks = rmatch r prev s pos (marks @ [pos])"
| "rmatch (Bol # r) prev s pos marks =
     (case prev of
        None \<Rightarrow> rmatch r prev s pos marks
      | Some p \<Rightarrow> if is_line_terminator p then rmatch r prev s pos marks else None)"
| "rmatch (Eol # r) prev [] pos marks = rmatch r prev [] pos marks"
| "rmatch (Eol # r) prev (x # xs) pos marks =
     (if is_line_terminator x then rmatch r prev (x # xs) pos marks else None)"

text \<open>
  \<open>RegExp.prototype.test\<close> with \<open>lastIndex = 0\<close>: is there a match starting at some
  position, tried from left to right. The registry of formats is rebuilt at every render,
  a failed \<open>test\<close> and a global \<open>replace\<close> both leave \<open>lastIndex\<close> at 0, so every call of
  \<open>test\<close> in the source starts at 0.
\<close>

fun regex_search :: "regex \<Rightarrow> code_unit option \<Rightarrow> jsstring \<Rightarrow> bool" where
  "regex_search r prev [] = (rmatch r prev [] 0 [] \<noteq> None)"
| "regex_search r prev (x # xs) =
     (rmatch r prev (x # xs) 0 [] \<noteq> None \<or> regex_search r (Some x) xs)"

definition regex_test :: "regex \<Rightarrow> jsstring \<Rightarrow> bool" where
  "regex_test r s = regex_search r None s"

text \<open>
  The replacement text of a match. \<open>capture k s marks\<close> is the text of group \<open>k\<close> of a
  match that starts at the head of \<open>s\<close>. Of the \<open>$\<close> forms of a replacement string the
  source uses only \<open>$1\<close> and \<open>$2\<close>: a \<open>$\<close> followed by a digit from 1 to 9 that numbers
  a group of the pattern is replaced by that group, any other character is copied.
\<close>

definition capture :: "nat \<Rightarrow> jsstring \<Rightarrow> nat list \<Rightarrow> jsstring" where
  "capture k s marks =
     (let opened = marks ! (2 * (k - 1)); closed = marks ! (2 * (k - 1) + 1)
      in take (closed - opened) (drop opened s))"

fun expand :: "jsstring \<Rightarrow> jsstring \<Rightarrow> nat list \<Rightarrow> jsstring" where
  "expand [] s marks = []"
| "expand [c] s marks = [c]"
| "expand (c # d # t) s marks =
     (if c = 0x24 \<and> 0x31 \<le> d \<and> d \<le> 0x39 \<and> 2 * (d - 0x30) \<le> length marks
      then capture (d - 0x30) s marks @ expand t s marks
      else c # expand (d # t) s marks)"

text \<open>
  \<open>String.prototype.replace\<close> with a global pattern: the matches are found from left to
  right, each search starting where the previous match ended (one code unit further
  after an empty match), and every match is replaced by the expanded replacement.
\<close>

function replace_from :: "regex \<Rightarrow> jsstring \<Rightarrow> code_unit option \<Rightarrow> jsstring \<Rightarrow> jsstring" where
  "replace_from r t prev [] =
     (case rmatch r prev [] 0 [] of
        None \<Rightarrow> []
      | Some (n, marks) \<Rightarrow> expand t [] marks)"
| "replace_from r t prev (x # xs) =
     (case rmatch r prev (x # xs) 0 [] of
        None \<Rightarrow> x # replace_from r t (Some x) xs
      | Some (n, marks) \<Rightarrow>
          expand t (x # xs) marks @
          (if n = 0 then x # replace_from r t (Some x) xs
           else replace_from r t (Some ((x # xs) ! (n - 1))) (drop n (x # xs))))"
  by pat_completeness auto
termination
  by (relation "measure (\<lambda>(r, t, prev, s). length s)") auto

declare replace_from.simps [simp del]

definition replace :: "jsstring \<Rightarrow> regex \<Rightarrow> jsstring \<Rightarrow> jsstring" where
  "replace s r t = replace_from r t None s"

section \<open>The format registry\<close>

datatype format_type = Inline | Line | Block | Special

record format =
  pattern :: "regex option"
  marker :: jsstring
  type :: format_type
  endMarker :: "jsstring option"
  handler :: "(jsstring \<Rightarrow> jsstring) option"

definition inline_pattern :: "string \<Rightarrow> regex" where
  "inline_pattern m = lits m @ [GroupOpen, LazyStar Dot, GroupClose] @ lits m"

definition formats :: "string \<rightharpoonup> format" where
  "formats = map_of [
     (''bold'', \<lparr>pattern = Some (inline_pattern ''**''), marker = js ''**'', type = Inline,
        endMarker = None, handler = None\<rparr>),
     (''italic'', \<lparr>pattern = Some (inline_pattern ''*''), marker = js ''*'', type = Inline,
        endMarker = None, handler = None\<rparr>),
     (''code'', \<lparr>pattern = Some (inline_pattern ''`''), marker = js ''`'', type = Inline,
        endMarker = None, handler = None\<rparr>),
     (''strikethrough'', \<lparr>pattern = Some (inline_pattern ''~~''), marker = js ''~~'',
        type = Inline, endMarker = None, handler = None\<rparr>),
     (''h1'', \<lparr>pattern = None, marker = js ''# '', type = Line,
        endMarker = None, handler = None\<rparr>),
     (''h2'', \<lparr>pattern = None, marker = js ''## '', type = Line,
        endMarker = None, handler = None\<rparr>),
     (''h3'', \<lparr>pattern = None, marker = js ''### '', type = Line,
        endMarker = None, handler = None\<rparr>),
     (''bulletList'', \<lparr>pattern = None, marker = js ''- '', type = Line,
        endMarker = None, handler = None\<rparr>),
     (''numberList'', \<lparr>pattern = None, marker = js ''1. '', type = Line,
        endMarker = None, handler = None\<rparr>),
     (''blockquote'', \<lparr>pattern = None, marker = js ''> '', type = Line,
        endMarker = None, handler = None\<rparr>),
     (''horizontalRule'', \<lparr>pattern = None, marker = 0x0A # js ''---'' @ [0x0A], type = Special,
        endMarker = None, handler = None\<rparr>),
     (''codeBlock'', \<lparr>pattern = None, marker = 0x0A # js ''```'' @ [0x0A], type = Block,
        endMarker = Some (0x0A # js ''```''), handler = None\<rparr>),
     (''link'', \<lparr>pattern = None, marker = [], type = Special,
        endMarker = None, handler = Some (\<lambda>selectedText. js ''['' @ selectedText @ js ''](url)'')\<rparr>),
     (''image'', \<lparr>pattern = None, marker = [], type = Special,
        endMarker = None,
        handler = Some (\<lambda>selectedText. js ''!['' @ selectedText @ js ''](image-url)'')\<rparr>)]"

section \<open>The selection transformer\<close>

text \<open>
  \<open>formatText formatType text textarea\<close>: \<open>text\<close> is the component's state and
  \<open>textarea\<close> is \<open>None\<close> when the reference is null, otherwise the pair
  \<open>(selectionStart, selectionEnd)\<close> of the control. The function returns early on a null
  reference (\<open>Inr None\<close>), throws a \<open>TypeError\<close> when it reads \<open>type\<close> of a format that
  the registry does not have, and otherwise ends with \<open>(newText, newCursorPosition)\<close>, the
  arguments of \<open>setText\<close> and of \<open>setSelectionRange\<close>.

  The registry is an object literal, so a key that it does not define itself but inherits
  from \<open>Object.prototype\<close> is looked up to a value that is not \<open>undefined\<close> and whose
  \<open>type\<close> is \<open>undefined\<close>: nothing is thrown, no case of the switch runs, and the text
  and the selection start are passed on unchanged.
\<close>

datatype error = TypeError

definition object_prototype_keys :: "string list" where
  "object_prototype_keys =
     [''constructor'', ''__defineGetter__'', ''__defineSetter__'', ''hasOwnProperty'',
      ''__lookupGetter__'', ''__lookupSetter__'', ''isPrototypeOf'', ''propertyIsEnumerable'',
      ''toString'', ''valueOf'', ''__proto__'', ''toLocaleString'']"

definition formatText :: "string \<Rightarrow> jsstring \<Rightarrow> (nat \<times> nat) option \<Rightarrow> error + (jsstring \<times> nat) option" where
  "formatText formatType text textarea =
     (case textarea of
        None \<Rightarrow> Inr None
      | Some (start, end) \<Rightarrow>
          let selectedText = substring text start end in
          (case formats formatType of
             None \<Rightarrow>
               if formatType \<in> set object_prototype_keys then Inr (Some (text, start))
               else Inl TypeError
           | Some format \<Rightarrow>
               (case type format of
                  Inline \<Rightarrow>
                    let hasFormat = (case pattern format of
                                       None \<Rightarrow> False
                                     | Some p \<Rightarrow> regex_test p selectedText);
                        newContent = (if hasFormat
                                      then replace selectedText (the (pattern format)) (js ''$1'')
                                      else marker format @ selectedText @ marker format)
                    in Inr (Some (substring text 0 start @ newContent @ substring_from text end,
                                  start + length newContent))
                | Line \<Rightarrow>
                    let lineStart = nat (lastIndexOf text 0x0A (int start - 1) + 1);
                        lineEnd = indexOf text 0x0A end;
                        lineStop = (if lineEnd = - 1 then length text else nat lineEnd);
                        currentLine = substring text lineStart lineStop;
                        hasFormat = startsWith currentLine (marker format)
                    in if hasFormat
                       then Inr (Some (substring text 0 lineStart @
                                       substring_from currentLine (length (marker format)) @
                                       substring_from text lineStop, start))
                       else Inr (Some (substring text 0 lineStart @
                                       marker format @
                                       currentLine @
                                       substring_from text lineStop, start))
                | Block \<Rightarrow>
                    Inr (Some (substring text 0 start @
                               marker format @
                               selectedText @
                               (case endMarker format of None \<Rightarrow> [] | Some m \<Rightarrow> m) @
                               substring_from text end, start))
                | Special \<Rightarrow>
                    (case handler format of
                       Some h \<Rightarrow>
                         let newContent = h selectedText
                         in Inr (Some (substring text 0 start @ newContent @ substring_from text end,
                                       start + length newContent))
                     | None \<Rightarrow>
                         Inr (Some (substring text 0 start @ marker format @ substring_from text end,
                                    start + length (marker format)))))))"

section \<open>The converter\<close>

text \<open>The rule list of \<open>convertToHTML\<close>, in the order of the source.\<close>

definition line_rule :: "regex \<Rightarrow> regex" where
  "line_rule prefix = Bol # prefix @ [GroupOpen, Star Dot, Eol, GroupClose]"

definition conversions :: "(regex \<times> jsstring) list" where
  "conversions = [
     (lits ''```'' @ [GroupOpen, LazyStar AnyChar, GroupClose] @ lits ''```'',
        js ''<pre><code>$1</code></pre>''),
     (line_rule (lits ''### ''), js ''<h3>$1</h3>''),
     (line_rule (lits ''## ''), js ''<h2>$1</h2>''),
     (line_rule (lits ''# ''), js ''<h1>$1</h1>''),
     (line_rule (lits ''> ''), js ''<blockquote>$1</blockquote>''),
     (line_rule (Plus Digit # lits ''. ''), js ''<ol><li>$1</li></ol>''),
     (line_rule (lits ''- ''), js ''<ul><li>$1</li></ul>''),
     (Bol # lits ''---'' @ [GroupOpen, Ch AnyChar, GroupClose], js ''<hr>$1''),
     (inline_pattern ''**'', js ''<strong>$1</strong>''),
     (inline_pattern ''*'', js ''<em>$1</em>''),
     (inline_pattern ''`'', js ''<code>$1</code>''),
     (inline_pattern ''~~'', js ''<del>$1</del>''),
     (lits ''['' @ [GroupOpen, LazyStar Dot, GroupClose] @ lits '']('' @
        [GroupOpen, LazyStar Dot, GroupClose] @ lits '')'',
        js ''<a href=\"$2\">$1</a>''),
     (lits ''!['' @ [GroupOpen, LazyStar Dot, GroupClose] @ lits '']('' @
        [GroupOpen, LazyStar Dot, GroupClose] @ lits '')'',
        js ''<img src=\"$2\" alt=\"$1\">'')]"

definition convertToHTML :: "jsstring \<Rightarrow> jsstring" where
  "convertToHTML text =
     (let html = foldl (\<lambda>html (pattern, replacement). replace html pattern replacement)
                   text conversions;
          html = replace html
                   (lits ''</'' @ [Ch (OneOf (js ''ou''))] @ lits ''l>'' @ [Star Space] @
                    lits ''<'' @ [Ch (OneOf (js ''ou''))] @ lits ''l>'') [];
          html = replace html [Ch (Lit 0x0A)] (js ''<br>'')
      in html)"

section \<open>Notions used to state the properties\<close>

text \<open>
  \<open>inline_regex mk\<close> is the pattern of an inline format over the code units of its
  marker. \<open>find_close mk s\<close> is the length of the shortest text before an occurrence of
  \<open>mk\<close> in \<open>s\<close>, when no line terminator comes before that occurrence.
\<close>

definition inline_regex :: "jsstring \<Rightarrow> regex" where
  "inline_regex mk = map (\<lambda>c. Ch (Lit c)) mk @ [GroupOpen, LazyStar Dot, GroupClose] @ map (\<lambda>c. Ch (Lit c)) mk"

fun find_close :: "jsstring \<Rightarrow> jsstring \<Rightarrow> nat option" where
  "find_close mk [] = (if mk = [] then Some 0 else None)"
| "find_close mk (x # xs) =
     (if startsWith (x # xs) mk then Some 0
      else if is_line_terminator x then None
      else map_option Suc (find_close mk xs))"

text \<open>
  \<open>has_span m s\<close>: somewhere in \<open>s\<close> the marker occurs twice with no line terminator
  between the two occurrences. \<open>js_includes s p\<close>: \<open>p\<close> occurs in \<open>s\<close>.
\<close>

definition has_span :: "jsstring \<Rightarrow> jsstring \<Rightarrow> bool" where
  "has_span m s = (\<exists>a b c. s = a @ m @ b @ m @ c \<and> \<not> list_ex is_line_terminator b)"

fun js_includes :: "jsstring \<Rightarrow> jsstring \<Rightarrow> bool" where
  "js_includes [] p = (p = [])"
| "js_includes (x # xs) p = (startsWith (x # xs) p \<or> js_includes xs p)"

text \<open>
  \<open>line_start text start\<close> is the offset after the last newline that lies before the
  offset \<open>start\<close>, or 0 when there is none; \<open>line_stop text end\<close> is the offset of the
  first newline at or after \<open>end\<close>, or the length of the text.
\<close>

definition line_start :: "jsstring \<Rightarrow> nat \<Rightarrow> nat" where
  "line_start text start = length (dropWhile (\<lambda>x. x \<noteq> 0x0A) (rev (take start text)))"

definition line_stop :: "jsstring \<Rightarrow> nat \<Rightarrow> nat" where
  "line_stop text end = length text - length (dropWhile (\<lambda>x. x \<noteq> 0x0A) (drop end text))"

section \<open>Strings\<close>

lemma substring_0 [simp]: "substring s 0 a = take a s"
  by (auto simp: substring_def Let_def min_def)

lemma substring_from_drop [simp]: "substring_from s a = drop a s"
  by (simp add: substring_from_def min_def)

lemma substring_valid: "a \<le> b \<Longrightarrow> substring s a b = take (b - a) (drop a s)"
  by (auto simp: substring_def Let_def min_def max_def)

lemma take_drop_mid: "length a = n \<Longrightarrow> length b = k \<Longrightarrow> take k (drop n (a @ b @ c)) = b"
  by simp

lemma drop_mid: "length a = n \<Longrightarrow> length b = k \<Longrightarrow> drop (n + k) (a @ b @ c) = c"
  by simp

section \<open>The matcher on the inline patterns\<close>

lemma startsWith_Nil [simp]: "startsWith s []"
  by (simp add: startsWith_def)

lemma startsWith_Cons: "startsWith s (c # mk) = (case s of [] \<Rightarrow> False | x # xs \<Rightarrow> x = c \<and> startsWith xs mk)"
  by (cases s) (auto simp: startsWith_def)

lemma startsWith_iff: "startsWith s mk \<longleftrightarrow> (\<exists>r. s = mk @ r)"
  unfolding startsWith_def
  by (metis append_eq_conv_conj)

lemma rmatch_lit:
  "rmatch (map (\<lambda>c. Ch (Lit c)) mk @ r) prev s pos marks =
     (if startsWith s mk
      then rmatch r (if mk = [] then prev else Some (last mk)) (drop (length mk) s) (pos + length mk) marks
      else None)"
proof (induction mk arbitrary: prev s pos)
  case Nil
  then show ?case by simp
next
  case (Cons c mk)
  show ?case
  proof (cases s)
    case Nil
    then show ?thesis by (simp add: startsWith_Cons)
  next
    case (Cons x xs)
    then show ?thesis using Cons.IH [of "Some x" xs "Suc pos"]
      by (auto simp: startsWith_Cons)
  qed
qed

lemma rmatch_lit_end:
  "rmatch (map (\<lambda>c. Ch (Lit c)) mk) prev s pos marks =
     (if startsWith s mk then Some (pos + length mk, marks) else None)"
  using rmatch_lit [of mk "[]" prev s pos marks] by simp

lemma rmatch_lazy_close:
  "rmatch (LazyStar Dot # GroupClose # map (\<lambda>c. Ch (Lit c)) mk) prev s pos marks =
     map_option (\<lambda>j. (pos + j + length mk, marks @ [pos + j])) (find_close mk s)"
proof (induction s arbitrary: prev pos)
  case Nil
  then show ?case by (auto simp: rmatch_lit_end startsWith_def)
next
  case (Cons x xs)
  then show ?case
    by (auto simp: rmatch_lit_end option.map_comp comp_def)
qed

lemma inline_pattern_regex: "inline_pattern m = inline_regex (js m)"
  by (simp add: inline_pattern_def inline_regex_def lits_def js_def comp_def)

lemma rmatch_inline:
  "rmatch (inline_regex mk) prev s 0 [] =
     (if startsWith s mk
      then map_option (\<lambda>j. (length mk + j + length mk, [length mk, length mk + j])) (find_close mk (drop (length mk) s))
      else None)"
  by (simp add: inline_regex_def rmatch_lit rmatch_lazy_close)

lemma find_close_Some:
  "find_close mk s = Some j \<Longrightarrow>
     \<exists>b c. s = b @ mk @ c \<and> length b = j \<and> \<not> list_ex is_line_terminator b"
proof (induction s arbitrary: j)
  case Nil
  then show ?case by (auto split: if_splits)
next
  case (Cons x xs)
  show ?case
  proof (cases "startsWith (x # xs) mk")
    case True
    then obtain r where "x # xs = mk @ r" by (auto simp: startsWith_iff)
    moreover from True Cons.prems have "j = 0" by simp
    ultimately show ?thesis by auto
  next
    case False
    with Cons.prems obtain j' where j': "find_close mk xs = Some j'" "j = Suc j'"
      and x: "\<not> is_line_terminator x"
      by (auto split: if_splits)
    from Cons.IH [OF j'(1)] obtain b c where
      "xs = b @ mk @ c" "length b = j'" "\<not> list_ex is_line_terminator b" by blast
    with x j'(2) have "x # xs = (x # b) @ mk @ c \<and> length (x # b) = j
        \<and> \<not> list_ex is_line_terminator (x # b)" by simp
    then show ?thesis by blast
  qed
qed

lemma find_close_startsWith: "startsWith s mk \<Longrightarrow> find_close mk s = Some 0"
  by (cases s) (auto simp: startsWith_def)

lemma find_close_exists:
  "\<not> list_ex is_line_terminator b \<Longrightarrow> \<exists>j. find_close mk (b @ mk @ c) = Some j"
proof (induction b)
  case Nil
  have "startsWith (mk @ c) mk" by (simp add: startsWith_iff)
  then show ?case by (simp add: find_close_startsWith)
next
  case (Cons x b)
  then show ?case by auto
qed

lemma has_span_head:
  "has_span mk s \<longleftrightarrow>
     (startsWith s mk \<and> find_close mk (drop (length mk) s) \<noteq> None)
     \<or> (case s of [] \<Rightarrow> False | x # xs \<Rightarrow> has_span mk xs)"
proof
  assume "has_span mk s"
  then obtain a b c where s: "s = a @ mk @ b @ mk @ c" and b: "\<not> list_ex is_line_terminator b"
    by (auto simp: has_span_def)
  show "(startsWith s mk \<and> find_close mk (drop (length mk) s) \<noteq> None)
     \<or> (case s of [] \<Rightarrow> False | x # xs \<Rightarrow> has_span mk xs)"
  proof (cases a)
    case Nil
    with s b find_close_exists [OF b, of mk c] show ?thesis
      by (auto simp: startsWith_iff)
  next
    case (Cons x a')
    with s b have "has_span mk (a' @ mk @ b @ mk @ c)"
      unfolding has_span_def by blast
    with s Cons show ?thesis by simp
  qed
next
  assume r: "(startsWith s mk \<and> find_close mk (drop (length mk) s) \<noteq> None)
     \<or> (case s of [] \<Rightarrow> False | x # xs \<Rightarrow> has_span mk xs)"
  show "has_span mk s"
  proof (cases "startsWith s mk \<and> find_close mk (drop (length mk) s) \<noteq> None")
    case True
    then obtain r j where s: "s = mk @ r" and "find_close mk r = Some j"
      by (auto simp: startsWith_iff)
    from find_close_Some [OF this(2)] obtain b c where
      "r = b @ mk @ c" "\<not> list_ex is_line_terminator b" by blast
    with s have "s = [] @ mk @ b @ mk @ c \<and> \<not> list_ex is_line_terminator b" by simp
    then show ?thesis unfolding has_span_def by blast
  next
    case False
    with r obtain x xs where s: "s = x # xs" and "has_span mk xs"
      by (auto split: list.splits)
    then obtain a b c where "xs = a @ mk @ b @ mk @ c" "\<not> list_ex is_line_terminator b"
      by (auto simp: has_span_def)
    with s have "s = (x # a) @ mk @ b @ mk @ c \<and> \<not> list_ex is_line_terminator b" by simp
    then show ?thesis unfolding has_span_def by blast
  qed
qed

lemma rmatch_inline_None:
  "rmatch (inline_regex mk) prev s 0 [] \<noteq> None \<longleftrightarrow>
     startsWith s mk \<and> find_close mk (drop (length mk) s) \<noteq> None"
  by (simp add: rmatch_inline)

lemma regex_search_inline: "regex_search (inline_regex mk) prev s = has_span mk s"
proof (induction s arbitrary: prev)
  case Nil
  show ?case
    by (subst has_span_head) (simp add: rmatch_inline_None del: not_None_eq)
next
  case (Cons x xs)
  show ?case
    by (subst has_span_head) (simp add: rmatch_inline_None Cons.IH del: not_None_eq)
qed

lemma regex_test_inline: "regex_test (inline_pattern m) s = has_span (js m) s"
  by (simp add: regex_test_def inline_pattern_regex regex_search_inline)


section \<open>Global replacement with an inline pattern\<close>

lemma expand_dollar1: "expand (js ''$1'') s [opened, closed] = take (closed - opened) (drop opened s)"
  by (simp add: js_def capture_def)

lemma replace_from_inline_Nil: "mk \<noteq> [] \<Longrightarrow> replace_from (inline_regex mk) t prev [] = []"
  by (simp add: replace_from.simps rmatch_inline startsWith_def)

lemma replace_from_inline_miss:
  "\<not> (startsWith (x # xs) mk \<and> find_close mk (drop (length mk) (x # xs)) \<noteq> None) \<Longrightarrow>
     replace_from (inline_regex mk) t prev (x # xs) = x # replace_from (inline_regex mk) t (Some x) xs"
  by (auto simp: replace_from.simps rmatch_inline)

lemma replace_from_inline_hit:
  assumes "mk \<noteq> []" "startsWith (x # xs) mk" "find_close mk (drop (length mk) (x # xs)) = Some j"
  shows "replace_from (inline_regex mk) t prev (x # xs) =
           expand t (x # xs) [length mk, length mk + j] @
           replace_from (inline_regex mk) t (Some ((x # xs) ! (length mk + j + length mk - 1)))
             (drop (length mk + j + length mk) (x # xs))"
  using assms by (simp add: replace_from.simps rmatch_inline)

lemma replace_from_inline_prev:
  assumes "mk \<noteq> []"
  shows "replace_from (inline_regex mk) t prev s = replace_from (inline_regex mk) t prev' s"
proof (induction s arbitrary: prev prev' rule: length_induct)
  case (1 s)
  show ?case
  proof (cases s)
    case Nil
    with assms show ?thesis by (simp add: replace_from_inline_Nil)
  next
    case (Cons x xs)
    show ?thesis
    proof (cases "startsWith (x # xs) mk \<and> find_close mk (drop (length mk) (x # xs)) \<noteq> None")
      case False
      show ?thesis unfolding Cons
        by (simp add: replace_from_inline_miss [OF False])
    next
      case True
      then obtain j where j: "find_close mk (drop (length mk) (x # xs)) = Some j" by auto
      from assms have "length (drop (length mk + j + length mk) (x # xs)) < length s"
        unfolding Cons by (cases mk) auto
      with 1 have "replace_from (inline_regex mk) t p (drop (length mk + j + length mk) (x # xs))
          = replace_from (inline_regex mk) t p' (drop (length mk + j + length mk) (x # xs))" for p p'
        by blast
      with True j assms show ?thesis unfolding Cons
        by (simp only: replace_from_inline_hit [OF assms _ j])
    qed
  qed
qed

lemma replace_from_inline_no_span:
  assumes "mk \<noteq> []"
  shows "\<not> has_span mk s \<Longrightarrow> replace_from (inline_regex mk) t prev s = s"
proof (induction s arbitrary: prev)
  case Nil
  with assms show ?case by (simp add: replace_from_inline_Nil)
next
  case (Cons x xs)
  from Cons.prems have miss: "\<not> (startsWith (x # xs) mk \<and> find_close mk (drop (length mk) (x # xs)) \<noteq> None)"
    and "\<not> has_span mk xs"
    by (subst (asm) has_span_head, simp)+
  with Cons.IH show ?case by (simp add: replace_from_inline_miss [OF miss])
qed

lemma replace_from_inline_span:
  assumes "mk \<noteq> []"
  shows "has_span mk s \<Longrightarrow>
     \<exists>a b c. s = a @ mk @ b @ mk @ c \<and> \<not> list_ex is_line_terminator b \<and>
       replace_from (inline_regex mk) (js ''$1'') prev s =
         a @ b @ replace_from (inline_regex mk) (js ''$1'') None c"
proof (induction s arbitrary: prev)
  case Nil
  with assms show ?case by (simp add: has_span_def)
next
  case (Cons x xs)
  show ?case
  proof (cases "startsWith (x # xs) mk \<and> find_close mk (drop (length mk) (x # xs)) \<noteq> None")
    case True
    then obtain r j where s: "x # xs = mk @ r" and j: "find_close mk r = Some j"
      by (auto simp: startsWith_iff)
    from find_close_Some [OF j] obtain b c where
      r: "r = b @ mk @ c" and b: "length b = j" "\<not> list_ex is_line_terminator b" by blast
    from True j s have j': "find_close mk (drop (length mk) (x # xs)) = Some j" by simp
    have "replace_from (inline_regex mk) (js ''$1'') prev (x # xs) =
            take j (drop (length mk) (x # xs)) @
            replace_from (inline_regex mk) (js ''$1'')
              (Some ((x # xs) ! (length mk + j + length mk - 1)))
              (drop (length mk + j + length mk) (x # xs))"
      using True by (simp only: replace_from_inline_hit [OF assms _ j'] expand_dollar1) simp
    also have "take j (drop (length mk) (x # xs)) = b"
      by (simp add: s r b)
    also have "drop (length mk + j + length mk) (x # xs) = c"
      by (simp add: s r b)
    also have "replace_from (inline_regex mk) (js ''$1'')
              (Some ((x # xs) ! (length mk + j + length mk - 1))) c =
            replace_from (inline_regex mk) (js ''$1'') None c"
      by (rule replace_from_inline_prev [OF assms])
    finally have "replace_from (inline_regex mk) (js ''$1'') prev (x # xs) =
            b @ replace_from (inline_regex mk) (js ''$1'') None c" .
    with s r b have "x # xs = [] @ mk @ b @ mk @ c \<and> \<not> list_ex is_line_terminator b \<and>
       replace_from (inline_regex mk) (js ''$1'') prev (x # xs) =
         [] @ b @ replace_from (inline_regex mk) (js ''$1'') None c" by simp
    then show ?thesis by blast
  next
    case False
    with Cons.prems have "has_span mk xs"
      by (subst (asm) has_span_head) auto
    from Cons.IH [OF this, of "Some x"] obtain a b c where
      "xs = a @ mk @ b @ mk @ c" "\<not> list_ex is_line_terminator b"
      "replace_from (inline_regex mk) (js ''$1'') (Some x) xs =
         a @ b @ replace_from (inline_regex mk) (js ''$1'') None c" by blast
    moreover have "replace_from (inline_regex mk) (js ''$1'') prev (x # xs) =
        x # replace_from (inline_regex mk) (js ''$1'') (Some x) xs"
      by (rule replace_from_inline_miss [OF False])
    ultimately have "x # xs = (x # a) @ mk @ b @ mk @ c \<and> \<not> list_ex is_line_terminator b \<and>
       replace_from (inline_regex mk) (js ''$1'') prev (x # xs) =
         (x # a) @ b @ replace_from (inline_regex mk) (js ''$1'') None c"
      by simp
    then show ?thesis by blast
  qed
qed

lemma includes_append: "js_includes (a @ p @ c) p"
proof (induction a)
  case Nil
  have "startsWith (p @ c) p" by (simp add: startsWith_iff)
  then show ?case by (cases "p @ c") (auto simp: startsWith_def)
next
  case (Cons x a)
  then show ?case by simp
qed

lemma has_span_includes: "has_span mk s \<Longrightarrow> js_includes s mk"
  by (auto simp: has_span_def includes_append)

lemma bold_close:
  assumes "\<not> list_ex is_line_terminator sel" "\<not> js_includes sel [0x2A, 0x2A]"
  shows "\<exists>j. find_close [0x2A, 0x2A] (sel @ [0x2A, 0x2A]) = Some j
           \<and> take j (sel @ [0x2A, 0x2A]) @ drop (j + 2) (sel @ [0x2A, 0x2A]) = sel
           \<and> length (drop (j + 2) (sel @ [0x2A, 0x2A])) \<le> 1"
  using assms
proof (induction sel)
  case Nil
  then show ?case by (simp add: startsWith_def)
next
  case (Cons x xs)
  show ?case
  proof (cases "startsWith (x # xs @ [0x2A, 0x2A]) [0x2A, 0x2A]")
    case True
    with Cons.prems have "xs = []"
      by (cases xs) (auto simp: startsWith_def)
    with True show ?thesis by (simp add: startsWith_def)
  next
    case False
    from Cons.prems Cons.IH obtain j where
      "find_close [0x2A, 0x2A] (xs @ [0x2A, 0x2A]) = Some j"
      "take j (xs @ [0x2A, 0x2A]) @ drop (j + 2) (xs @ [0x2A, 0x2A]) = xs"
      "length (drop (j + 2) (xs @ [0x2A, 0x2A])) \<le> 1" by auto
    with False Cons.prems show ?thesis by simp
  qed
qed

lemma short_no_span: "mk \<noteq> [] \<Longrightarrow> length s \<le> 1 \<Longrightarrow> \<not> has_span mk s"
  by (cases mk) (auto simp: has_span_def)

lemma bold_unwrap:
  assumes "\<not> list_ex is_line_terminator sel" "\<not> js_includes sel (js ''**'')"
  shows "replace (js ''**'' @ sel @ js ''**'') (inline_pattern ''**'') (js ''$1'') = sel"
proof -
  let ?mk = "[0x2A, 0x2A] :: jsstring"
  have mk: "js ''**'' = ?mk" by (simp add: js_def)
  from assms bold_close [of sel] obtain j where
    j: "find_close ?mk (sel @ ?mk) = Some j"
    and eq: "take j (sel @ ?mk) @ drop (j + 2) (sel @ ?mk) = sel"
    and short: "length (drop (j + 2) (sel @ ?mk)) \<le> 1" unfolding mk by blast
  have ne: "?mk \<noteq> []" by simp
  have sw: "startsWith (0x2A # 0x2A # sel @ ?mk) ?mk" by (simp add: startsWith_def)
  have j': "find_close ?mk (drop (length ?mk) (0x2A # 0x2A # sel @ ?mk)) = Some j"
    using j by simp
  have "replace_from (inline_regex ?mk) (js ''$1'') None (0x2A # 0x2A # sel @ ?mk) =
          take j (sel @ ?mk) @
          replace_from (inline_regex ?mk) (js ''$1'')
            (Some ((0x2A # 0x2A # sel @ ?mk) ! (length ?mk + j + length ?mk - 1)))
            (drop (j + 2) (sel @ ?mk))"
    by (subst replace_from_inline_hit [OF ne sw j']) (simp add: expand_dollar1)
  also have "replace_from (inline_regex ?mk) (js ''$1'')
            (Some ((0x2A # 0x2A # sel @ ?mk) ! (length ?mk + j + length ?mk - 1)))
            (drop (j + 2) (sel @ ?mk)) = drop (j + 2) (sel @ ?mk)"
    by (rule replace_from_inline_no_span [OF ne short_no_span [OF ne short]])
  also note eq
  finally have "replace_from (inline_regex ?mk) (js ''$1'') None (0x2A # 0x2A # sel @ ?mk) = sel" .
  then show ?thesis
    by (simp add: replace_def inline_pattern_regex mk)
qed

lemma formats_inline:
  assumes "formats formatType = Some format" "type format = Inline"
  shows "\<exists>m. m \<noteq> [] \<and> pattern format = Some (inline_pattern m) \<and> marker format = js m"
  using assms by (auto simp: formats_def split: if_splits)

lemma formatText_inline:
  assumes "formats formatType = Some format" "type format = Inline"
  shows "formatText formatType text (Some (start, end)) =
     (let sel = substring text start end;
          newContent = (if has_span (marker format) sel
                        then replace sel (the (pattern format)) (js ''$1'')
                        else marker format @ sel @ marker format)
      in Inr (Some (take start text @ newContent @ drop end text, start + length newContent)))"
proof -
  from formats_inline [OF assms] obtain m where
    "pattern format = Some (inline_pattern m)" "marker format = js m" by blast
  with assms show ?thesis
    by (simp add: formatText_def Let_def regex_test_inline)
qed

section \<open>Line formats away from a leading newline\<close>

text \<open>
  When the selection does not start at offset 0 of a text that begins with a newline, the
  line start that the source computes is \<open>line_start\<close>, and a line format inserts or
  strips its marker there and changes nothing else.
\<close>

lemma lastIndexOf_line_start:
  assumes "start \<le> length text" "0 < start \<or> text = [] \<or> hd text \<noteq> 0x0A"
  shows "nat (lastIndexOf text 0x0A (int start - 1) + 1) = line_start text start"
proof (cases "start = 0")
  case True
  with assms(2) show ?thesis
    by (cases "text") (auto simp: lastIndexOf_def line_start_def)
next
  case False
  with assms(1) have "min (max (int start - 1) 0) (int (length text) - 1) = int start - 1"
    by auto
  then show ?thesis
    by (simp add: lastIndexOf_def line_start_def)
qed

lemma indexOf_line_stop:
  "(if indexOf text 0x0A end = - 1 then length text else nat (indexOf text 0x0A end)) =
     line_stop text end"
proof -
  define r where "r = dropWhile (\<lambda>x. x \<noteq> (0x0A::nat)) (drop end text)"
  have "length r \<le> length (drop end text)"
    unfolding r_def by (rule length_dropWhile_le)
  then have le: "length r \<le> length text" by simp
  have d: "drop (min end (length text)) text = drop end text"
    by (simp add: min_def)
  have io: "indexOf text 0x0A end = (if r = [] then - 1 else int (length text) - int (length r))"
    by (simp only: indexOf_def Let_def d r_def)
  have ls: "line_stop text end = length text - length r"
    by (simp add: line_stop_def r_def)
  show ?thesis
  proof (cases "r = []")
    case True
    then show ?thesis by (simp add: io ls)
  next
    case False
    with le have "int (length text) - int (length r) \<noteq> - 1" by simp
    with False le show ?thesis by (simp add: io ls)
  qed
qed

lemma line_start_le: "line_start text start \<le> start"
proof -
  have "line_start text start \<le> length (rev (take start text))"
    unfolding line_start_def by (rule length_dropWhile_le)
  then show ?thesis by simp
qed

lemma line_stop_ge: "end \<le> length text \<Longrightarrow> end \<le> line_stop text end"
proof -
  have "length (dropWhile (\<lambda>x. x \<noteq> 0x0A) (drop end text)) \<le> length (drop end text)"
    by (rule length_dropWhile_le)
  then show "end \<le> length text \<Longrightarrow> end \<le> line_stop text end"
    by (simp add: line_stop_def)
qed

lemma line_stop_le: "line_stop text end \<le> length text"
  by (simp add: line_stop_def)

lemma line_stop_newline:
  assumes "line_stop text end < length text"
  shows "text ! line_stop text end = 0x0A"
proof -
  define r where "r = dropWhile (\<lambda>x. x \<noteq> (0x0A::nat)) (drop end text)"
  define k where "k = length (takeWhile (\<lambda>x. x \<noteq> (0x0A::nat)) (drop end text))"
  have ls: "line_stop text end = length text - length r"
    by (simp add: line_stop_def r_def)
  with assms have ne: "r \<noteq> []" by auto
  then have hd: "hd r = 0x0A"
    unfolding r_def using hd_dropWhile [of "\<lambda>x. x \<noteq> (0x0A::nat)" "drop end text"] by auto
  have r: "r = drop k (drop end text)"
    unfolding r_def k_def by (rule dropWhile_eq_drop)
  have "k \<le> length (drop end text)"
    unfolding k_def by (rule length_takeWhile_le)
  moreover from ne r have "end < length text" by auto
  ultimately have stop: "line_stop text end = end + k"
    by (simp add: ls r)
  from r have "r = drop (line_stop text end) text"
    by (simp add: stop add.commute)
  with hd assms show ?thesis
    by (simp add: hd_drop_conv_nth)
qed

lemma last_take:
  assumes "0 < l" "l \<le> length t"
  shows "last (take l t) = t ! (l - 1)"
proof -
  from assms have "take l t \<noteq> []" by auto
  then have "last (take l t) = take l t ! (length (take l t) - 1)"
    by (rule last_conv_nth)
  also have "length (take l t) = l" using assms(2) by simp
  also have "take l t ! (l - 1) = t ! (l - 1)"
    using assms(1) by simp
  finally show ?thesis .
qed

lemma line_start_prev:
  assumes "0 < line_start t s"
  shows "t ! (line_start t s - 1) = 0x0A"
proof -
  define D where "D = dropWhile (\<lambda>x. x \<noteq> (0x0A::nat)) (rev (take s t))"
  define T where "T = takeWhile (\<lambda>x. x \<noteq> (0x0A::nat)) (rev (take s t))"
  have l: "line_start t s = length D" by (simp add: line_start_def D_def)
  with assms have ne: "D \<noteq> []" by auto
  then have hd: "hd D = 0x0A"
    unfolding D_def using hd_dropWhile [of "\<lambda>x. x \<noteq> (0x0A::nat)" "rev (take s t)"] by auto
  have "rev (take s t) = T @ D" by (simp add: T_def D_def)
  then have "rev (rev (take s t)) = rev (T @ D)" by (rule arg_cong)
  then have split: "take s t = rev D @ rev T" by simp
  then have "length D \<le> length (take s t)" by (metis length_append length_rev le_add1)
  then have le: "length D \<le> length t" by simp
  from split have "take (length D) (take s t) = rev D" by simp
  moreover have "take (length D) (take s t) = take (length D) t"
    using line_start_le [of t s] l by (simp add: min_def)
  ultimately have "rev D = take (length D) t" by simp
  then have "last (rev D) = last (take (length D) t)" by simp
  moreover have "last (rev D) = hd D" using ne by (simp add: last_rev)
  moreover have "last (take (length D) t) = t ! (length D - 1)"
    using ne le by (intro last_take) simp_all
  ultimately show ?thesis using hd l by simp
qed

lemma line_start_eq:
  assumes "l \<le> s" "s \<le> length t" "l = 0 \<or> t ! (l - 1) = 0x0A"
    and "0x0A \<notin> set (take (s - l) (drop l t))"
  shows "line_start t s = l"
proof -
  have "take s t = take l t @ take (s - l) (drop l t)"
    using assms(1) by (metis le_add_diff_inverse take_add)
  then have "rev (take s t) = rev (take (s - l) (drop l t)) @ rev (take l t)" by simp
  moreover have "dropWhile (\<lambda>x. x \<noteq> 0x0A) (rev (take (s - l) (drop l t)) @ rev (take l t)) =
      dropWhile (\<lambda>x. x \<noteq> 0x0A) (rev (take l t))"
    by (rule dropWhile_append2) (use assms(4) in auto)
  ultimately have d: "dropWhile (\<lambda>x. x \<noteq> 0x0A) (rev (take s t)) =
      dropWhile (\<lambda>x. x \<noteq> 0x0A) (rev (take l t))"
    by simp
  show ?thesis
  proof (cases "l = 0")
    case True
    then show ?thesis by (simp add: line_start_def d)
  next
    case False
    with assms have nl: "t ! (l - 1) = 0x0A" and len: "l \<le> length t" by auto
    from False len have "take l t \<noteq> []" by auto
    moreover from False len have "last (take l t) = t ! (l - 1)"
      by (intro last_take) simp_all
    ultimately have "hd (rev (take l t)) = 0x0A" "rev (take l t) \<noteq> []"
      using nl by (simp_all add: hd_rev)
    then have "dropWhile (\<lambda>x. x \<noteq> 0x0A) (rev (take l t)) = rev (take l t)"
      by (cases "rev (take l t)") auto
    with len show ?thesis by (simp add: line_start_def d)
  qed
qed

lemma line_rest:
  assumes "ls \<le> stop"
  shows "take (stop - ls) (drop ls t) @ drop stop t = drop ls t"
proof -
  from assms have "drop stop t = drop (stop - ls) (drop ls t)" by simp
  then show ?thesis by (simp only: append_take_drop_id)
qed

lemma startsWith_line:
  assumes "0x0A \<notin> set m" "ls \<le> stop" "stop \<le> length t"
    and "stop < length t \<Longrightarrow> t ! stop = 0x0A"
  shows "startsWith (take (stop - ls) (drop ls t)) m = startsWith (drop ls t) m"
proof (cases "length m \<le> stop - ls")
  case True
  then show ?thesis by (simp add: startsWith_def min_def)
next
  case False
  then have k: "stop - ls < length m" by simp
  have "\<not> startsWith (take (stop - ls) (drop ls t)) m"
  proof
    assume "startsWith (take (stop - ls) (drop ls t)) m"
    then have "length (take (length m) (take (stop - ls) (drop ls t))) = length m"
      by (simp add: startsWith_def)
    with k show False by simp
  qed
  moreover have "\<not> startsWith (drop ls t) m"
  proof
    assume sw: "startsWith (drop ls t) m"
    then have "length (take (length m) (drop ls t)) = length m"
      by (simp add: startsWith_def)
    then have "length m \<le> length t - ls" by simp
    with k assms(2) have lt: "stop < length t" by simp
    from sw have "m ! (stop - ls) = take (length m) (drop ls t) ! (stop - ls)"
      by (simp add: startsWith_def)
    also have "\<dots> = drop ls t ! (stop - ls)" using k by simp
    also have "\<dots> = t ! stop" using assms(2) lt by simp
    also have "\<dots> = 0x0A" using assms(4) lt by simp
    finally have "m ! (stop - ls) = 0x0A" .
    with k have "0x0A \<in> set m" by (metis nth_mem)
    with assms(1) show False by simp
  qed
  ultimately show ?thesis by simp
qed

lemma formats_line:
  assumes "formats formatType = Some format" "type format = Line"
  shows "0x0A \<notin> set (marker format)"
  using assms by (auto simp: formats_def js_def split: if_splits)

lemma formatText_line:
  assumes "formats formatType = Some format" "type format = Line"
  shows "formatText formatType text (Some (start, end)) =
     (let lineStart = nat (lastIndexOf text 0x0A (int start - 1) + 1);
          lineStop = (if indexOf text 0x0A end = - 1 then length text
                      else nat (indexOf text 0x0A end));
          currentLine = substring text lineStart lineStop
      in if startsWith currentLine (marker format)
         then Inr (Some (take lineStart text @ drop (length (marker format)) currentLine @
                         drop lineStop text, start))
         else Inr (Some (take lineStart text @ marker format @ currentLine @
                         drop lineStop text, start)))"
  using assms by (simp add: formatText_def Let_def)

lemma startsWith_length:
  assumes "startsWith s p"
  shows "length p \<le> length s"
proof -
  from assms have "length (take (length p) s) = length p"
    by (simp only: startsWith_def)
  then show ?thesis by simp
qed

lemma line_format_edit:
  assumes "formats formatType = Some format" "type format = Line"
    and "start \<le> end" "end \<le> length text"
    and "0 < start \<or> text = [] \<or> hd text \<noteq> 0x0A"
  shows "formatText formatType text (Some (start, end)) =
     Inr (Some (if startsWith (drop (line_start text start) text) (marker format)
                then take (line_start text start) text @
                     drop (line_start text start + length (marker format)) text
                else take (line_start text start) text @ marker format @
                     drop (line_start text start) text, start))"
proof -
  let ?ls = "line_start text start"
  let ?stop = "line_stop text end"
  let ?cur = "take (?stop - ?ls) (drop ?ls text)"
  let ?m = "marker format"
  have le: "?ls \<le> ?stop"
    using line_start_le [of "text" start] line_stop_ge [OF assms(4)] assms(3) by simp
  have ls: "nat (lastIndexOf text 0x0A (int start - 1) + 1) = ?ls"
    using assms(3,4,5) by (intro lastIndexOf_line_start) simp_all
  have cur: "substring text ?ls ?stop = ?cur"
    using le by (rule substring_valid)
  have sw: "startsWith ?cur ?m = startsWith (drop ?ls text) ?m"
    using formats_line [OF assms(1,2)] le line_stop_le line_stop_newline
    by (rule startsWith_line)
  have rest: "?cur @ drop ?stop text = drop ?ls text"
    using le by (rule line_rest)
  have eq: "formatText formatType text (Some (start, end)) =
      (if startsWith (drop ?ls text) ?m
       then Inr (Some (take ?ls text @ drop (length ?m) ?cur @ drop ?stop text, start))
       else Inr (Some (take ?ls text @ ?m @ ?cur @ drop ?stop text, start)))"
    by (simp only: formatText_line [OF assms(1,2)] ls indexOf_line_stop Let_def cur sw)
  show ?thesis
  proof (cases "startsWith (drop ?ls text) ?m")
    case False
    with eq rest show ?thesis by simp
  next
    case True
    with sw have "startsWith ?cur ?m" by simp
    then have "length ?m \<le> length ?cur" by (rule startsWith_length)
    then have "drop (length ?m) ?cur @ drop ?stop text = drop (length ?m) (?cur @ drop ?stop text)"
      by simp
    also have "\<dots> = drop (?ls + length ?m) text"
      by (simp only: rest drop_drop add.commute)
    finally show ?thesis using eq True by simp
  qed
qed

lemma h1_round_trip_away_from_leading_newline:
  assumes "start \<le> end" "end \<le> length text"
    and "0 < start \<or> text = [] \<or> hd text \<noteq> 0x0A"
    and "\<not> startsWith (drop (line_start text start) text) (js ''# '')"
    and "line_start text start \<le> s'" "s' \<le> e'" "e' \<le> length text + 2"
    and "0x0A \<notin> set (take (s' - line_start text start)
            (drop (line_start text start)
               (take (line_start text start) text @ js ''# '' @ drop (line_start text start) text)))"
  shows "formatText ''h1'' text (Some (start, end)) =
           Inr (Some (take (line_start text start) text @ js ''# '' @
                      drop (line_start text start) text, start))
       \<and> formatText ''h1''
           (take (line_start text start) text @ js ''# '' @ drop (line_start text start) text)
           (Some (s', e')) = Inr (Some (text, s'))"
proof -
  let ?H = "\<lparr>pattern = None, marker = js ''# '', type = Line, endMarker = None, handler = None\<rparr>"
  let ?ls = "line_start text start"
  let ?text' = "take ?ls text @ js ''# '' @ drop ?ls text"
  have f: "formats ''h1'' = Some ?H" by (simp add: formats_def)
  have t: "type ?H = Line" by simp
  have m: "marker ?H = js ''# ''" by simp
  have lm: "length (js ''# '') = 2" by (simp add: js_def)
  have ls_len: "?ls \<le> length text"
    using line_start_le [of "text" start] assms(1,2) by simp
  then have lt: "length (take ?ls text) = ?ls" by simp
  have first: "formatText ''h1'' text (Some (start, end)) = Inr (Some (?text', start))"
    using assms(4) by (simp only: line_format_edit [OF f t assms(1,2,3)] m if_False)
  have len': "length ?text' = length text + 2"
    using ls_len by (simp add: lm)
  have edge: "0 < s' \<or> ?text' = [] \<or> hd ?text' \<noteq> 0x0A"
  proof (cases "s' = 0")
    case True
    with assms(5) have "?ls = 0" by simp
    then have "hd ?text' = 0x23" by (simp add: js_def)
    then show ?thesis by simp
  next
    case False
    then show ?thesis by simp
  qed
  have prev: "?ls = 0 \<or> ?text' ! (?ls - 1) = 0x0A"
  proof (cases "?ls = 0")
    case True
    then show ?thesis by simp
  next
    case False
    then have "?text' ! (?ls - 1) = take ?ls text ! (?ls - 1)"
      using lt by (simp add: nth_append)
    also have "\<dots> = text ! (?ls - 1)" using False by simp
    also have "\<dots> = 0x0A" using False by (intro line_start_prev) simp
    finally show ?thesis by simp
  qed
  have s'_le: "s' \<le> length ?text'" using assms(6,7) len' by simp
  have ls': "line_start ?text' s' = ?ls"
    using assms(5) s'_le prev assms(8) by (rule line_start_eq)
  have dr: "drop ?ls ?text' = js ''# '' @ drop ?ls text"
    using lt by simp
  have sw: "startsWith (drop ?ls ?text') (js ''# '')"
    by (simp only: dr startsWith_iff) blast
  have "drop (?ls + 2) ?text' = drop ?ls text"
    using drop_mid [OF lt lm, of "drop ?ls text"] by simp
  moreover have "take ?ls ?text' = take ?ls text"
    using lt by simp
  ultimately have restored: "take ?ls ?text' @ drop (?ls + length (js ''# '')) ?text' = text"
    by (simp only: lm append_take_drop_id)
  have e'_le: "e' \<le> length ?text'" using assms(7) len' by simp
  have second: "formatText ''h1'' ?text' (Some (s', e')) = Inr (Some (text, s'))"
    using sw by (simp only: line_format_edit [OF f t assms(6) e'_le edge] ls' m if_True restored)
  from first second show ?thesis by simp
qed

lemma formatText_inherited_key:
  "formatText ''toString'' text (Some (start, end)) = Inr (Some (text, start))"
  by (simp add: formatText_def formats_def object_prototype_keys_def)

lemma formatText_unknown_key:
  "formatText ''underline'' text (Some (start, end)) = Inl TypeError"
  by (simp add: formatText_def formats_def object_prototype_keys_def)

lemmas eval_simps = replace_def replace_from.simps js_def lits_def line_rule_def inline_pattern_def
  is_line_terminator_def is_white_space_def capture_def convertToHTML_def conversions_def
  formatText_def formats_def regex_test_def substring_def lastIndexOf_def
  indexOf_def startsWith_def Let_def

section \<open>Inline formats\<close>

text \<open>
  Claim C1, as stated, fails: the bold pattern is tested anywhere in the selection. With
  the nine code units of \<open>a **b** c\<close> selected, the selection is not a marked span but
  contains one; the markers are stripped and the result is \<open>a b c\<close>, where the claim
  expects the selection to be wrapped.
\<close>

theorem bold_strips_span_inside_selection:
  "formatText ''bold'' (js ''a **b** c'') (Some (0, 9)) = Inr (Some (js ''a b c'', 5))"
  by (simp add: eval_simps)

text \<open>
  Claim C1, amended: an inline format strips markers exactly when the selection contains,
  anywhere, the marker twice with no line terminator in between. Then the selection is
  \<open>a\<close>, marker, \<open>b\<close>, marker, \<open>c\<close> with \<open>b\<close> free of line terminators, the new content is
  \<open>a\<close> and \<open>b\<close> followed by the same replacement applied to \<open>c\<close>, and the cursor is at its
  end. In every other case the selection is wrapped in the marker. The text before and
  after the selection is kept.
\<close>

theorem inline_toggle_on_contained_span:
  assumes "formats formatType = Some format" "type format = Inline"
  shows "if has_span (marker format) (substring text start end)
         then \<exists>a b c.
                substring text start end = a @ marker format @ b @ marker format @ c
                \<and> \<not> list_ex is_line_terminator b
                \<and> formatText formatType text (Some (start, end)) =
                    Inr (Some (take start text @
                                 (a @ b @ replace c (the (pattern format)) (js ''$1'')) @
                                 drop end text,
                               start + length (a @ b @ replace c (the (pattern format)) (js ''$1''))))
         else formatText formatType text (Some (start, end)) =
                Inr (Some (take start text @
                             (marker format @ substring text start end @ marker format) @
                             drop end text,
                           start + length (marker format @ substring text start end @ marker format)))"
proof (cases "has_span (marker format) (substring text start end)")
  case False
  then show ?thesis by (simp add: formatText_inline [OF assms] Let_def)
next
  case True
  from formats_inline [OF assms] obtain m where
    m: "m \<noteq> []" "pattern format = Some (inline_pattern m)" "marker format = js m" by blast
  then have ne: "js m \<noteq> []" by (simp add: js_def)
  from True replace_from_inline_span [OF ne, of "substring text start end" None]
  obtain a b c where sel: "substring text start end = a @ js m @ b @ js m @ c"
    and b: "\<not> list_ex is_line_terminator b"
    and repl: "replace (substring text start end) (inline_pattern m) (js ''$1'') =
       a @ b @ replace c (inline_pattern m) (js ''$1'')"
    unfolding replace_def inline_pattern_regex m by blast
  have "formatText formatType text (Some (start, end)) =
          Inr (Some (take start text @
                       (a @ b @ replace c (the (pattern format)) (js ''$1'')) @
                       drop end text,
                     start + length (a @ b @ replace c (the (pattern format)) (js ''$1''))))"
    using True repl by (simp add: formatText_inline [OF assms] Let_def m)
  with sel b have "\<exists>a b c.
                substring text start end = a @ marker format @ b @ marker format @ c
                \<and> \<not> list_ex is_line_terminator b
                \<and> formatText formatType text (Some (start, end)) =
                    Inr (Some (take start text @
                                 (a @ b @ replace c (the (pattern format)) (js ''$1'')) @
                                 drop end text,
                               start + length (a @ b @ replace c (the (pattern format)) (js ''$1''))))"
    unfolding m by blast
  with True show ?thesis by (simp only: if_True)
qed


theorem inline_toggle_on_contained_span_witness:
  "formats ''bold'' = Some \<lparr>pattern = Some (inline_pattern ''**''), marker = js ''**'',
        type = Inline, endMarker = None, handler = None\<rparr>
   \<and> type \<lparr>pattern = Some (inline_pattern ''**''), marker = js ''**'',
        type = Inline, endMarker = None, handler = None\<rparr> = Inline
   \<and> has_span (js ''**'') (substring (js ''a **b** c'') 0 9)
   \<and> (\<exists>a b c. substring (js ''a **b** c'') 0 9 = a @ js ''**'' @ b @ js ''**'' @ c
          \<and> \<not> list_ex is_line_terminator b
          \<and> formatText ''bold'' (js ''a **b** c'') (Some (0, 9)) =
               Inr (Some (take 0 (js ''a **b** c'') @
                            (a @ b @ replace c (inline_pattern ''**'') (js ''$1'')) @
                            drop 9 (js ''a **b** c''),
                          0 + length (a @ b @ replace c (inline_pattern ''**'') (js ''$1'')))))"
proof -
  let ?B = "\<lparr>pattern = Some (inline_pattern ''**''), marker = js ''**'',
        type = Inline, endMarker = None, handler = None\<rparr>"
  have f: "formats ''bold'' = Some ?B" by (simp add: formats_def)
  have t: "type ?B = Inline" by simp
  have "substring (js ''a **b** c'') 0 9 = js ''a '' @ js ''**'' @ js ''b'' @ js ''**'' @ js '' c''
        \<and> \<not> list_ex is_line_terminator (js ''b'')"
    by (simp add: js_def is_line_terminator_def)
  then have hs: "has_span (js ''**'') (substring (js ''a **b** c'') 0 9)"
    unfolding has_span_def by blast
  from inline_toggle_on_contained_span [OF f t, of "js ''a **b** c''" 0 9] hs
  have "\<exists>a b c. substring (js ''a **b** c'') 0 9 = a @ js ''**'' @ b @ js ''**'' @ c
          \<and> \<not> list_ex is_line_terminator b
          \<and> formatText ''bold'' (js ''a **b** c'') (Some (0, 9)) =
               Inr (Some (take 0 (js ''a **b** c'') @
                            (a @ b @ replace c (inline_pattern ''**'') (js ''$1'')) @
                            drop 9 (js ''a **b** c''),
                          0 + length (a @ b @ replace c (inline_pattern ''**'') (js ''$1''))))"
    by simp
  with f t hs show ?thesis by blast
qed

text \<open>
  Claim C2, as stated, fails for two kinds of selections in which the bold pattern does not
  match. The selection \<open>a**b\<close> holds the marker once: it is wrapped to \<open>**a**b**\<close>, and
  bold on that span strips the first two of the three markers, giving \<open>ab**\<close>. A selection
  with a newline, \<open>a\<close>, newline, \<open>b\<close>, is wrapped, and bold on the wrapped span wraps it
  again, since the pattern does not match across a line terminator.
\<close>

theorem bold_round_trip_fails:
  "\<not> regex_test (inline_pattern ''**'') (js ''a**b'')
   \<and> formatText ''bold'' (js ''a**b'') (Some (0, 4)) = Inr (Some (js ''**a**b**'', 8))
   \<and> formatText ''bold'' (js ''**a**b**'') (Some (0, 8)) = Inr (Some (js ''ab**'', 4))
   \<and> \<not> regex_test (inline_pattern ''**'') (js ''a'' @ 0x0A # js ''b'')
   \<and> formatText ''bold'' (js ''a'' @ 0x0A # js ''b'') (Some (0, 3)) =
        Inr (Some (js ''**a'' @ 0x0A # js ''b**'', 7))
   \<and> formatText ''bold'' (js ''**a'' @ 0x0A # js ''b**'') (Some (0, 7)) =
        Inr (Some (js ''****a'' @ 0x0A # js ''b****'', 11))"
  by (simp add: eval_simps)

text \<open>
  Claim C2, amended: for every valid selection that contains no line terminator and no
  occurrence of \<open>**\<close>, bold wraps the selection in \<open>**\<close>, the cursor landing at
  \<open>end + 4\<close>, and bold applied to the new text with the whole marked span selected
  (from \<open>start\<close> to \<open>end + 4\<close>) gives back the original text, the cursor landing at
  \<open>end\<close>.
\<close>

theorem bold_round_trip:
  assumes "start \<le> end" "end \<le> length text"
    and "\<not> list_ex is_line_terminator (substring text start end)"
    and "\<not> js_includes (substring text start end) (js ''**'')"
  shows "formatText ''bold'' text (Some (start, end)) =
           Inr (Some (take start text @ js ''**'' @ substring text start end @ js ''**'' @ drop end text,
                      end + 4))
       \<and> formatText ''bold''
           (take start text @ js ''**'' @ substring text start end @ js ''**'' @ drop end text)
           (Some (start, end + 4)) = Inr (Some (text, end))"
proof -
  let ?sel = "substring text start end"
  let ?B = "\<lparr>pattern = Some (inline_pattern ''**''), marker = js ''**'', type = Inline,
        endMarker = None, handler = None\<rparr>"
  let ?text' = "take start text @ js ''**'' @ ?sel @ js ''**'' @ drop end text"
  have f: "formats ''bold'' = Some ?B" by (simp add: formats_def)
  have t: "type ?B = Inline" by simp
  have sel: "?sel = take (end - start) (drop start text)"
    using assms(1) by (rule substring_valid)
  have len: "length ?sel = end - start" using assms(1,2) by (simp add: sel)
  have whole: "take start text @ ?sel @ drop end text = text"
    using assms(1,2) unfolding sel
    by (metis add_diff_cancel_left' append_take_drop_id drop_drop le_Suc_ex add.commute)
  have no: "\<not> has_span (js ''**'') ?sel"
    using assms(4) has_span_includes by blast
  have first: "formatText ''bold'' text (Some (start, end)) = Inr (Some (?text', end + 4))"
    using no assms(1) by (simp add: formatText_inline [OF f t] Let_def len) (simp add: js_def)
  have l1: "length (take start text) = start" using assms(1,2) by simp
  have l2: "length (js ''**'' @ ?sel @ js ''**'') = end + 4 - start"
    using assms(1) by (simp add: len js_def)
  have shape: "?text' = take start text @ (js ''**'' @ ?sel @ js ''**'') @ drop end text"
    by simp
  have "start \<le> end + 4" using assms(1) by simp
  then have "substring ?text' start (end + 4) = take (end + 4 - start) (drop start ?text')"
    by (rule substring_valid)
  also have "\<dots> = js ''**'' @ ?sel @ js ''**''"
    unfolding shape by (rule take_drop_mid [OF l1 l2])
  finally have sel': "substring ?text' start (end + 4) = js ''**'' @ ?sel @ js ''**''" .
  have span: "has_span (js ''**'') (js ''**'' @ ?sel @ js ''**'')"
    unfolding has_span_def using assms(3)
    by (intro exI [of _ "[]"] exI [of _ ?sel]) simp
  have e4: "end + 4 = start + (end + 4 - start)" using assms(1) by simp
  have dr: "drop (end + 4) ?text' = drop end text"
    unfolding shape by (subst e4) (rule drop_mid [OF l1 l2])
  have tk: "take start ?text' = take start text"
    using l1 by simp
  have "formatText ''bold'' ?text' (Some (start, end + 4)) =
          Inr (Some (take start ?text' @ ?sel @ drop (end + 4) ?text', start + length ?sel))"
    using span
    by (simp only: formatText_inline [OF f t] Let_def sel')
       (simp add: bold_unwrap [OF assms(3,4)])
  then have second: "formatText ''bold'' ?text' (Some (start, end + 4)) = Inr (Some (text, end))"
    using assms(1) by (simp only: tk dr whole len) simp
  from first second show ?thesis by simp
qed


theorem bold_round_trip_witness:
  "(0::nat) \<le> 5 \<and> 5 \<le> length (js ''hello'')
   \<and> \<not> list_ex is_line_terminator (substring (js ''hello'') 0 5)
   \<and> \<not> js_includes (substring (js ''hello'') 0 5) (js ''**'')
   \<and> formatText ''bold'' (js ''hello'') (Some (0, 5)) = Inr (Some (js ''**hello**'', 9))
   \<and> formatText ''bold'' (js ''**hello**'') (Some (0, 9)) = Inr (Some (js ''hello'', 5))"
proof -
  have h: "(0::nat) \<le> 5" "5 \<le> length (js ''hello'')"
    "\<not> list_ex is_line_terminator (substring (js ''hello'') 0 5)"
    "\<not> js_includes (substring (js ''hello'') 0 5) (js ''**'')"
    by (simp_all add: js_def is_line_terminator_def startsWith_def)
  from bold_round_trip [OF h] h show ?thesis
    by (simp add: js_def)
qed

text \<open>
  Claim C4, as stated, fails: with \<open>cd\<close> selected in \<open>abcdef\<close>, the horizontal rule
  replaces the selection. The new text is \<open>ab\<close>, newline, \<open>---\<close>, newline, \<open>ef\<close>; the
  selected text is gone.
\<close>

theorem horizontalRule_consumes_selection:
  "formatText ''horizontalRule'' (js ''abcdef'') (Some (2, 4)) =
     Inr (Some (js ''ab'' @ 0x0A # js ''---'' @ 0x0A # js ''ef'', 7))"
  by (simp add: eval_simps)

text \<open>
  Claim C4, amended: for every text and selection range, the horizontal rule replaces the
  selected region by the marker (newline, \<open>---\<close>, newline): the new text is the text before
  the selection, the marker, and the text after the selection, so that nothing is lost
  only when the selection is empty. The cursor lands immediately after the marker, at
  \<open>selectionStart + 5\<close>.
\<close>

theorem horizontalRule_replaces_selection:
  "formatText ''horizontalRule'' text (Some (start, end)) =
     Inr (Some (take start text @ (0x0A # js ''---'' @ [0x0A]) @ drop end text, start + 5))"
  by (simp add: formatText_def formats_def Let_def js_def)

section \<open>Line formats\<close>

text \<open>
  Claim C5 at a text that begins with a newline, with the cursor at offset 0: the line with
  the cursor is the empty first line, which does not start with the marker of \<open>h1\<close>. The
  search for the previous newline starts at index 0 and finds the newline there, so the
  line is taken to start at 1, after the index where it ends; the two indices of
  \<open>substring\<close> are swapped, and the new text is newline, \<open># \<close>, newline, newline, \<open>abc\<close>.
  The marker is not prepended to the line of the cursor, and a newline is added. For
  every other valid selection the round trip holds
  (\<open>h1_round_trip_away_from_leading_newline\<close>).
\<close>

theorem h1_at_leading_newline:
  "formatText ''h1'' (0x0A # js ''abc'') (Some (0, 0)) =
      Inr (Some (0x0A # js ''# '' @ 0x0A # 0x0A # js ''abc'', 0))"
  by (simp add: formatText_def formats_def js_def, simp add: lastIndexOf_def indexOf_def, simp add: substring_def substring_from_def startsWith_def)

text \<open>
  Claim C8 at a text that begins with a newline, with a selection from offset 0 to offset
  2: no newline lies before offset 0, but the marker of \<open>h1\<close> is inserted at offset 1,
  the start of the second line, not at offset 0. For every other valid selection the
  marker is inserted or stripped at the start of the line of the selection start, and
  nothing else changes (\<open>line_format_edit\<close>).
\<close>

theorem line_start_at_leading_newline:
  "formatText ''h1'' (0x0A # js ''abc'') (Some (0, 2)) = Inr (Some (0x0A # js ''# abc'', 0))"
  by (simp add: formatText_def formats_def js_def, simp add: lastIndexOf_def indexOf_def, simp add: substring_def substring_from_def startsWith_def)




section \<open>The frame of an edit\<close>

text \<open>
  Claim C9: every format that is not a line format (the inline, block and special ones)
  changes the selected region only: the new text is the text before the selection start,
  some new content, and the text after the selection end. A line format does edit outside
  the selection: \<open>h1\<close> with the cursor at offset 1 of \<open>ab\<close> inserts the marker at
  offset 0.
\<close>

theorem selection_frame:
  assumes "formats formatType = Some format" "type format \<noteq> Line"
  shows "(\<exists>newContent cursor. formatText formatType text (Some (start, end)) =
            Inr (Some (take start text @ newContent @ drop end text, cursor)))
         \<and> formatText ''h1'' (js ''ab'') (Some (1, 1)) = Inr (Some (js ''# ab'', 1))"
proof
  show "\<exists>newContent cursor. formatText formatType text (Some (start, end)) =
            Inr (Some (take start text @ newContent @ drop end text, cursor))"
  proof (cases "type format")
    case Inline
    from formatText_inline [OF assms(1) Inline] show ?thesis
      by (simp add: Let_def)
  next
    case Line
    with assms show ?thesis by simp
  next
    case Block
    with assms(1) show ?thesis by (simp add: formatText_def Let_def)
  next
    case Special
    with assms(1) show ?thesis
      by (cases "handler format") (auto simp: formatText_def Let_def)
  qed
  show "formatText ''h1'' (js ''ab'') (Some (1, 1)) = Inr (Some (js ''# ab'', 1))"
    by (simp add: formatText_def formats_def js_def, simp add: lastIndexOf_def indexOf_def, simp add: substring_def substring_from_def startsWith_def)
qed


theorem selection_frame_witness:
  "formats ''codeBlock'' = Some \<lparr>pattern = None, marker = 0x0A # js ''```'' @ [0x0A],
        type = Block, endMarker = Some (0x0A # js ''```''), handler = None\<rparr>
   \<and> type \<lparr>pattern = None, marker = 0x0A # js ''```'' @ [0x0A],
        type = Block, endMarker = Some (0x0A # js ''```''), handler = None\<rparr> \<noteq> Line
   \<and> (\<exists>newContent cursor. formatText ''codeBlock'' (js ''abcdef'') (Some (2, 4)) =
            Inr (Some (take 2 (js ''abcdef'') @ newContent @ drop 4 (js ''abcdef''), cursor)))"
proof -
  let ?C = "\<lparr>pattern = None, marker = 0x0A # js ''```'' @ [0x0A],
        type = Block, endMarker = Some (0x0A # js ''```''), handler = None\<rparr>"
  have f: "formats ''codeBlock'' = Some ?C" by (simp add: formats_def)
  have t: "type ?C \<noteq> Line" by simp
  from selection_frame [OF f t, of "js ''abcdef''" 2 4] f t show ?thesis by blast
qed

section \<open>The converter\<close>

text \<open>
  Claim C3 at its own input: the link rule runs before the image rule and matches the
  image markdown from its second character on, so the result is an exclamation mark
  followed by an anchor element, and the image rule finds nothing left to match.
\<close>

theorem image_markdown_converted_as_link:
  "convertToHTML (js ''![alt](url)'') = js ''!<a href=\"url\">alt</a>''"
  by (simp add: eval_simps)

text \<open>
  Claim C6 at its own input, a numbered line followed by a bullet line: the collapse
  pattern accepts either list letter on both sides, so the boundary between the end of
  the numbered list and the start of the bullet list is removed too. The output opens a
  numbered list and closes a bullet list.
\<close>

theorem mixed_lists_collapsed:
  "convertToHTML (js ''1. a'' @ 0x0A # js ''- b'') = js ''<ol><li>a</li><li>b</li></ul>''"
  by (simp add: eval_simps)

text \<open>
  Claim C7: two bullet lines separated by a newline are converted to one list with two
  items; the collapse removes the boundary with its newline, and no line break
  element is produced.
\<close>

theorem bullet_lines_merge_into_one_list:
  "convertToHTML (js ''- a'' @ 0x0A # js ''- b'') = js ''<ul><li>a</li><li>b</li></ul>''"
  by (simp add: eval_simps)

end
